theory Spec2Isabelle
  imports
    Main
    "HOL-Library.AList"
    "HOL-Library.Char_ord"
    "HOL-Library.List_Lexorder"
    "HOL-Library.Monad_Syntax"
begin

section \<open>Syntax nodes\<close>

text \<open>
  The program works on the syntax trees of typescript-estree and Babel. A node is a tagged
  union over node kinds; the constructors below carry the fields that the program reads
  (\<open>body\<close>, \<open>members\<close>, \<open>properties\<close>, \<open>key\<close>, \<open>computed\<close>, \<open>value\<close>, \<open>elements\<close>, \<open>callee\<close>,
  \<open>arguments\<close>, \<open>object\<close>, \<open>property\<close>, \<open>expression\<close>, \<open>name\<close>, \<open>id\<close>). The three declaration
  bodies, which the rewrite copies with \<open>{...node, body: ...}\<close>, also carry their remaining
  own properties (\<open>loc\<close>, \<open>range\<close>, ...), as a list of property names with their values.
  Every kind the program has no case for is an \<open>OtherNode\<close>: its kind (none of the kinds
  of the other constructors), its \<open>key\<close> and \<open>computed\<close> fields when it has them (a method, a
  signature, an accessor), and its children. Only the kind of a literal's value is ever
  inspected (\<open>typeof value !== "string"\<close>); a number is kept as an integer.
\<close>

datatype literal_value =
    StringValue string
  | NumberValue int
  | BooleanValue bool
  | NullValue
  | RegExpValue string
  | BigIntValue int

type_synonym properties = "(string \<times> string) list"

datatype Node =
    TSInterfaceBody properties "Node list"
  | ClassBody properties "Node list"
  | TSTypeLiteral properties "Node list"
  | ObjectExpression "Node list"
  | PropertyDefinition Node bool "Node option"
  | Property Node bool Node
  | ArrayExpression "Node option list"
  | CallExpression Node "Node list"
  | MemberExpression Node Node
  | ChainExpression Node
  | TSAsExpression Node
  | ThisExpression
  | Identifier string
  | PrivateIdentifier string
  | Literal literal_value
  | PrivateName Node
  | StringLiteral string
  | OtherNode string "Node option" "bool option" "Node list"

text \<open>The \<open>type\<close> of a node.\<close>

fun type_of :: "Node \<Rightarrow> string" where
  "type_of (TSInterfaceBody r body) = ''TSInterfaceBody''"
| "type_of (ClassBody r body) = ''ClassBody''"
| "type_of (TSTypeLiteral r members) = ''TSTypeLiteral''"
| "type_of (ObjectExpression props) = ''ObjectExpression''"
| "type_of (PropertyDefinition k c v) = ''PropertyDefinition''"
| "type_of (Property k c v) = ''Property''"
| "type_of (ArrayExpression elements) = ''ArrayExpression''"
| "type_of (CallExpression callee arguments) = ''CallExpression''"
| "type_of (MemberExpression obj prop) = ''MemberExpression''"
| "type_of (ChainExpression e) = ''ChainExpression''"
| "type_of (TSAsExpression e) = ''TSAsExpression''"
| "type_of ThisExpression = ''ThisExpression''"
| "type_of (Identifier x) = ''Identifier''"
| "type_of (PrivateIdentifier x) = ''PrivateIdentifier''"
| "type_of (Literal v) = ''Literal''"
| "type_of (PrivateName i) = ''PrivateName''"
| "type_of (StringLiteral s) = ''StringLiteral''"
| "type_of (OtherNode t k c ns) = t"

text \<open>\<open>"key" in $\<close> and \<open>$.key\<close>: the key of a node that has one.\<close>

fun key_of :: "Node \<Rightarrow> Node option" where
  "key_of (PropertyDefinition k c v) = Some k"
| "key_of (Property k c v) = Some k"
| "key_of (OtherNode t k c ns) = k"
| "key_of _ = None"

text \<open>\<open>"computed" in $ && $.computed === true\<close>.\<close>

fun computed_true :: "Node \<Rightarrow> bool" where
  "computed_true (PropertyDefinition k c v) = c"
| "computed_true (Property k c v) = c"
| "computed_true (OtherNode t k c ns) = (c = Some True)"
| "computed_true _ = False"

section \<open>Name Resolver\<close>

text \<open>
  \<open>extractName\<close> returns a string or \<open>undefined\<close> (\<open>None\<close>). \<open>isNode\<close>, \<open>isPrivateName\<close> and
  \<open>isStringLiteral\<close> are the tests of \<open>@babel/types\<close>: \<open>isNode\<close> looks the \<open>type\<close> of a node up
  in Babel's table \<open>VISITOR_KEYS\<close>. The table is not part of this program; the list of its
  keys is the parameter \<open>babel\<close> of everything that resolves a name.
\<close>

definition isNode :: "string list \<Rightarrow> Node \<Rightarrow> bool" where
  "isNode babel n = (type_of n \<in> set babel)"

fun isPrivateName :: "Node \<Rightarrow> bool" where
  "isPrivateName (PrivateName i) = True"
| "isPrivateName _ = False"

fun isStringLiteral :: "Node \<Rightarrow> bool" where
  "isStringLiteral (StringLiteral s) = True"
| "isStringLiteral _ = False"

text \<open>The \<open>switch (true)\<close> over the two Babel kinds of key.\<close>

definition babel_key_name :: "Node \<Rightarrow> string option" where
  "babel_key_name k =
     (if isPrivateName k
      then (case k of PrivateName (Identifier n) \<Rightarrow> Some n | _ \<Rightarrow> None)
      else if isStringLiteral k
      then (case k of StringLiteral s \<Rightarrow> Some s | _ \<Rightarrow> None)
      else None)"

text \<open>
  The \<open>switch\<close> on \<open>$.key.type\<close>, followed by the Babel kinds for every key that it does
  not return on.
\<close>

fun key_name :: "string list \<Rightarrow> bool \<Rightarrow> Node \<Rightarrow> string option" where
  "key_name babel computed (Identifier n) = (if computed then None else Some n)"
| "key_name babel computed (PrivateIdentifier n) = (if computed then None else Some n)"
| "key_name babel computed (Literal (StringValue s)) = Some s"
| "key_name babel computed (Literal v) = None"
| "key_name babel computed k = (if isNode babel k then babel_key_name k else None)"

definition extractName :: "string list \<Rightarrow> Node \<Rightarrow> string option" where
  "extractName babel n =
     (case key_of n of
        None \<Rightarrow> None
      | Some k \<Rightarrow> key_name babel (computed_true n) k)"

text \<open>A string or \<open>undefined\<close> in a condition: \<open>undefined\<close> and the empty string are falsy.\<close>

fun truthy :: "string option \<Rightarrow> bool" where
  "truthy None = False"
| "truthy (Some s) = (s \<noteq> [])"

section \<open>Ordering Comparator\<close>

text \<open>
  Modelled from the spec: the result type \<open>Order\<close> and the combinator \<open>C.by\<close> live in
  \<open>comparator.ts\<close>, which is not among the sources. The spec describes a three-way
  comparator (Less / Equal / Greater) that compares two members through the values derived
  from them, so \<open>C.by f cmp\<close> compares \<open>f a\<close> with \<open>f b\<close> by \<open>cmp\<close>.
\<close>

datatype Order = Less | Equal | Greater

definition by_selector :: "('a \<Rightarrow> 'b) \<Rightarrow> ('b \<Rightarrow> 'b \<Rightarrow> Order) \<Rightarrow> 'a \<Rightarrow> 'a \<Rightarrow> Order" where
  "by_selector f cmp a b = cmp (f a) (f b)"

text \<open>
  The Dependency Mapping is a JavaScript object used as a dictionary from names to arrays of
  names. It is an association list in insertion order; a lookup is \<open>map_of\<close>, which finds
  the entries that the program has stored (the properties that every object inherits, such
  as \<open>constructor\<close> or \<open>toString\<close>, are not part of the model).
\<close>

type_synonym DataDependencyMap = "(string \<times> string list) list"

record member_info =
  name :: "string option"
  dependencies :: "string list"

definition member_info_of :: "string list \<Rightarrow> DataDependencyMap \<Rightarrow> Node \<Rightarrow> member_info" where
  "member_info_of babel dependencyMap n =
     (let nm = extractName babel n;
          deps = (case nm of
                    None \<Rightarrow> []
                  | Some s \<Rightarrow>
                      if s \<noteq> []
                      then (case map_of dependencyMap s of Some ds \<Rightarrow> ds | None \<Rightarrow> [])
                      else [])
      in \<lparr>name = nm, dependencies = deps\<rparr>)"

text \<open>
  \<open>Array.prototype.indexOf\<close> on an array of strings; the argument may be \<open>undefined\<close>. In
  the comparator the guards \<open>a && a.dependencies && a.dependencies.indexOf\<close> hold for every
  pair, \<open>dependencies\<close> being an array.
\<close>

fun indexOf :: "string list \<Rightarrow> string option \<Rightarrow> int" where
  "indexOf [] y = - 1"
| "indexOf (x # xs) y =
     (if Some x = y then 0
      else (let r = indexOf xs y in if r = - 1 then - 1 else r + 1))"

definition compare_info :: "member_info \<Rightarrow> member_info \<Rightarrow> Order" where
  "compare_info a b =
     (if length (dependencies a) = 0 \<and> length (dependencies b) = 0 then Equal
      else if indexOf (dependencies a) (name b) \<noteq> - 1 then Greater
      else if indexOf (dependencies b) (name a) \<noteq> - 1 then Less
      else if length (dependencies a) \<le> length (dependencies b) then Less
      else if length (dependencies b) \<le> length (dependencies a) then Greater
      else Equal)"

definition dataDependency :: "string list \<Rightarrow> DataDependencyMap \<Rightarrow> Node \<Rightarrow> Node \<Rightarrow> Order" where
  "dataDependency babel dependencyMap =
     by_selector (member_info_of babel dependencyMap) compare_info"

section \<open>Dependency Extractor: traversal\<close>

text \<open>
  The traversal is driven by a queue of entries \<open>{parent, node}\<close>; \<open>parent\<close> may be
  \<open>undefined\<close> and \<open>node\<close> may be \<open>null\<close> (a hole of an array literal). The expression
  \<open>cur.parent || extractName(cur.node)\<close> occurs in \<open>queueEntryMapper\<close> and in the re-queue of
  a chained member access; both are applied only after \<open>cur.node\<close> was found non-null, so they
  take the parent and the node of \<open>cur\<close>.
\<close>

record DependencyQueueEntry =
  parent :: "string option"
  node :: "Node option"

definition inherited_parent :: "string list \<Rightarrow> string option \<Rightarrow> Node \<Rightarrow> string option" where
  "inherited_parent babel p c = (if truthy p then p else extractName babel c)"

definition queueEntryMapper ::
  "string list \<Rightarrow> string option \<Rightarrow> Node \<Rightarrow> Node option \<Rightarrow> DependencyQueueEntry" where
  "queueEntryMapper babel p c n = \<lparr>parent = inherited_parent babel p c, node = n\<rparr>"

text \<open>\<open>if (dep_name.endsWith('?')) dep_name = dep_name.slice(0, -1)\<close>.\<close>

definition strip_optional :: "string \<Rightarrow> string" where
  "strip_optional dep_name =
     (if dep_name \<noteq> [] \<and> last dep_name = CHR ''?'' then butlast dep_name else dep_name)"

text \<open>
  Recording an edge: the array of \<open>cur.parent\<close> is created empty, as the last key of the
  mapping, when the mapping has none; then the name is pushed onto it.
\<close>

definition push_dependency :: "string \<Rightarrow> string \<Rightarrow> DataDependencyMap \<Rightarrow> DataDependencyMap" where
  "push_dependency p dep_name m =
     (case map_of m p of
        None \<Rightarrow> m @ [(p, [dep_name])]
      | Some deps \<Rightarrow> AList.update p (deps @ [dep_name]) m)"

text \<open>
  One turn of the \<open>switch\<close> on \<open>cur.node.type\<close>, for a non-null \<open>cur.node\<close>: the entries
  pushed onto the queue and the mapping after the turn. An edge is recorded only under a
  truthy \<open>cur.parent\<close> (neither \<open>undefined\<close> nor the empty string).
\<close>

fun visit_node ::
  "string list \<Rightarrow> string option \<Rightarrow> Node \<Rightarrow> DataDependencyMap
     \<Rightarrow> DependencyQueueEntry list \<times> DataDependencyMap" where
  "visit_node babel p (TSInterfaceBody r body) m =
     (map (\<lambda>n. queueEntryMapper babel p (TSInterfaceBody r body) (Some n)) body, m)"
| "visit_node babel p (ClassBody r body) m =
     (map (\<lambda>n. queueEntryMapper babel p (ClassBody r body) (Some n)) body, m)"
| "visit_node babel p (TSTypeLiteral r members) m =
     (map (\<lambda>n. queueEntryMapper babel p (TSTypeLiteral r members) (Some n)) members, m)"
| "visit_node babel p (ObjectExpression props) m =
     (map (\<lambda>n. queueEntryMapper babel p (ObjectExpression props) (Some n)) props, m)"
| "visit_node babel p (PropertyDefinition k c None) m = ([], m)"
| "visit_node babel p (PropertyDefinition k c (Some v)) m =
     ([queueEntryMapper babel p (PropertyDefinition k c (Some v)) (Some v)], m)"
| "visit_node babel p (Property k c v) m =
     ([queueEntryMapper babel p (Property k c v) (Some v)], m)"
| "visit_node babel p (ArrayExpression elements) m =
     (map (queueEntryMapper babel p (ArrayExpression elements)) elements, m)"
| "visit_node babel p (CallExpression callee arguments) m =
     ((case callee of
         MemberExpression obj prop \<Rightarrow>
           [queueEntryMapper babel p (CallExpression callee arguments) (Some obj)]
       | _ \<Rightarrow> [])
      @ map (\<lambda>n. queueEntryMapper babel p (CallExpression callee arguments) (Some n)) arguments,
      m)"
| "visit_node babel p (MemberExpression obj (Identifier dep_name)) m =
     (case obj of
        ThisExpression \<Rightarrow>
          (case p of
             None \<Rightarrow> ([], m)
           | Some pn \<Rightarrow>
               if pn \<noteq> [] then ([], push_dependency pn (strip_optional dep_name) m)
               else ([], m))
      | MemberExpression obj' prop' \<Rightarrow>
          ([\<lparr>parent = inherited_parent babel p (MemberExpression obj (Identifier dep_name)),
             node = Some obj\<rparr>], m)
      | _ \<Rightarrow> ([], m))"
| "visit_node babel p (MemberExpression obj prop) m = ([], m)"
| "visit_node babel p (ChainExpression e) m =
     ([queueEntryMapper babel p (ChainExpression e) (Some e)], m)"
| "visit_node babel p (TSAsExpression e) m =
     ([queueEntryMapper babel p (TSAsExpression e) (Some e)], m)"
| "visit_node babel p n m = ([], m)"

text \<open>
  The loop \<open>while (q.length)\<close> ends: every turn removes the first entry and appends entries
  for children of its node, so the nodes left to visit shrink.
\<close>

fun entry_weight :: "DependencyQueueEntry \<Rightarrow> nat" where
  "entry_weight e = (case node e of None \<Rightarrow> 1 | Some n \<Rightarrow> Suc (size n))"

lemma weight_map_Some:
  "sum_list (map (\<lambda>n. entry_weight (queueEntryMapper babel p c (Some n))) ns) = size_list size ns"
  by (induction ns) (auto simp: queueEntryMapper_def)

lemma weight_map_opt:
  "sum_list (map (\<lambda>n. entry_weight (queueEntryMapper babel p c n)) ns) \<le> size_list (size_option size) ns"
  by (induction ns) (auto simp: queueEntryMapper_def split: option.splits)

lemma sum_Suc_size: "(\<Sum>x\<leftarrow>ns. Suc (size x)) = size_list size (ns :: Node list)"
  by (induction ns) auto

lemma visit_node_weight:
  "visit_node babel p c m = (new, m') \<Longrightarrow> sum_list (map entry_weight new) < Suc (size c)"
proof (induction babel p c m rule: visit_node.induct)
  case (8 babel p elements m)
  then show ?case
    using weight_map_opt [of babel p "ArrayExpression elements" elements]
    by (auto simp: comp_def)
next
  case (9 babel p callee arguments m)
  then show ?case
    by (cases callee) (auto simp: comp_def sum_Suc_size queueEntryMapper_def)
next
  case (10 babel p obj dep_name m)
  then show ?case
    by (cases obj) (auto split: option.splits if_splits)
qed (auto simp: comp_def sum_Suc_size queueEntryMapper_def)

function bfs :: "string list \<Rightarrow> DependencyQueueEntry list \<Rightarrow> DataDependencyMap \<Rightarrow> DataDependencyMap" where
  "bfs babel [] m = m"
| "bfs babel (cur # q) m =
     (case node cur of
        None \<Rightarrow> bfs babel q m
      | Some c \<Rightarrow>
          (case visit_node babel (parent cur) c m of
             (new, m') \<Rightarrow> bfs babel (q @ new) m'))"
  by pat_completeness auto
termination
  apply (relation "measure (\<lambda>(babel, q, m). sum_list (map entry_weight q))")
    apply simp
   apply simp
  apply (auto dest!: visit_node_weight [OF sym])
  done


text \<open>The mapping before the closure: the traversal from the declaration node, on an empty mapping.\<close>

definition direct_dependencies :: "string list \<Rightarrow> Node \<Rightarrow> DataDependencyMap" where
  "direct_dependencies babel n = bfs babel [\<lparr>parent = None, node = Some n\<rparr>] []"

section \<open>Dependency Extractor: transitive closure\<close>

text \<open>
  The deduplicating \<open>filter\<close> keeps the first occurrence of every name; \<open>seen\<close> holds the
  names met so far.
\<close>

fun dedup :: "string list \<Rightarrow> string list \<Rightarrow> string list" where
  "dedup seen [] = []"
| "dedup seen (d # ds) = (if d \<in> set seen then dedup seen ds else d # dedup (d # seen) ds)"

text \<open>
  \<open>with_transitives\<close> before deduplication: a copy of \<open>map[k]\<close>, followed by \<open>map[d]\<close> for every
  \<open>d\<close> of \<open>map[k]\<close> that is a key of the mapping.
\<close>

definition concat_transitives :: "DataDependencyMap \<Rightarrow> string list \<Rightarrow> string list" where
  "concat_transitives m deps =
     fold (\<lambda>d with_transitives.
             case map_of m d of
               None \<Rightarrow> with_transitives
             | Some d_deps \<Rightarrow> with_transitives @ d_deps) deps deps"

definition has_change :: "string list \<Rightarrow> string list \<Rightarrow> bool" where
  "has_change original with_transitives =
     (length original \<noteq> length with_transitives \<or>
      \<not> list_all (\<lambda>i. with_transitives ! i = original ! i) [0..<length with_transitives])"

text \<open>
  The body of \<open>for (const k of keys)\<close>, on the mapping and the flag \<open>modified\<close>. The default
  \<open>sort()\<close> orders strings by their code units; \<open>map[k].sort()\<close> sorts the array of \<open>k\<close> in
  place. \<open>k\<close> is taken from \<open>Object.keys(map)\<close>, and the loop keeps the keys of the mapping,
  so the lookup of \<open>k\<close> finds an array and the first branch is never taken
  (\<open>object_keys_set\<close> and \<open>closure_pass_keys\<close> below).
\<close>

definition closure_key :: "DataDependencyMap \<times> bool \<Rightarrow> string \<Rightarrow> DataDependencyMap \<times> bool" where
  "closure_key st k =
     (case st of (m, modified) \<Rightarrow>
        (case map_of m k of
           None \<Rightarrow> (m, modified)
         | Some deps \<Rightarrow>
             (let with_transitives = sort (dedup [] (concat_transitives m deps));
                  original = sort deps;
                  m1 = AList.update k original m
              in if has_change original with_transitives
                 then (AList.update k with_transitives m1, True)
                 else (m1, modified))))"

text \<open>One run of the body of \<open>do ... while (modified)\<close>.\<close>

definition closure_pass :: "string list \<Rightarrow> DataDependencyMap \<Rightarrow> DataDependencyMap \<times> bool" where
  "closure_pass keys m = foldl closure_key (m, False) keys"

text \<open>The deduplicated, sorted \<open>with_transitives\<close> of an array \<open>deps\<close>.\<close>

definition expand :: "DataDependencyMap \<Rightarrow> string list \<Rightarrow> string list" where
  "expand m deps = sort (dedup [] (concat_transitives m deps))"

lemma dedup_set: "set (dedup seen ds) = set ds - set seen"
  by (induction seen ds rule: dedup.induct) auto

lemma dedup_distinct: "distinct (dedup seen ds)"
  by (induction seen ds rule: dedup.induct) (auto simp: dedup_set)

lemma fold_concat_set:
  "set (fold (\<lambda>d wt. case map_of m d of None \<Rightarrow> wt | Some dd \<Rightarrow> wt @ dd) ds acc) =
     set acc \<union> (\<Union>d\<in>set ds. case map_of m d of None \<Rightarrow> {} | Some dd \<Rightarrow> set dd)"
  by (induction ds arbitrary: acc) (auto split: option.splits)

lemma expand_set:
  "set (expand m deps) =
     set deps \<union> (\<Union>d\<in>set deps. case map_of m d of None \<Rightarrow> {} | Some dd \<Rightarrow> set dd)"
  by (simp add: expand_def concat_transitives_def dedup_set fold_concat_set)

lemma expand_sorted: "sorted (expand m deps)"
  unfolding expand_def by (rule sorted_sort)

lemma expand_distinct: "distinct (expand m deps)"
  unfolding expand_def by (simp only: distinct_sort dedup_distinct)

lemma has_change_iff: "has_change original wt \<longleftrightarrow> original \<noteq> wt"
proof -
  have "original = wt \<longleftrightarrow> length original = length wt \<and> (\<forall>i<length wt. wt ! i = original ! i)"
    using list_eq_iff_nth_eq [of wt original] by auto
  then show ?thesis
    unfolding has_change_def list_all_iff by auto
qed

lemma closure_key_Some:
  "map_of m k = Some deps \<Longrightarrow>
     closure_key (m, modified) k = (AList.update k (expand m deps) m, modified \<or> sort deps \<noteq> expand m deps)"
  by (auto simp: closure_key_def Let_def has_change_iff expand_def)

lemma closure_key_None: "map_of m k = None \<Longrightarrow> closure_key (m, modified) k = (m, modified)"
  by (simp add: closure_key_def)

text \<open>
  The loop ends: a pass that sets \<open>modified\<close> either adds a name to an array, out of the
  names that occur in the arrays of the mapping, or replaces an array that had a duplicate
  by a sorted one without.
\<close>

definition vals :: "DataDependencyMap \<Rightarrow> string set" where
  "vals m = (\<Union>e\<in>set m. set (snd e))"

definition defect :: "string set \<Rightarrow> string list \<Rightarrow> nat" where
  "defect V deps = 2 * card (V - set deps) + (if sorted deps \<and> distinct deps then 0 else 1)"

definition total_defect :: "DataDependencyMap \<Rightarrow> nat" where
  "total_defect m = sum_list (map (\<lambda>e. defect (vals m) (snd e)) m)"

lemma finite_vals [simp]: "finite (vals m)"
  by (simp add: vals_def)

lemma map_of_vals: "map_of m k = Some deps \<Longrightarrow> set deps \<subseteq> vals m"
  by (auto simp: vals_def dest!: map_of_SomeD) 

lemma expand_vals: "map_of m k = Some deps \<Longrightarrow> set (expand m deps) \<subseteq> vals m"
  using map_of_vals by (fastforce simp: expand_set split: option.splits)

lemma vals_update: "map_of m k = Some deps \<Longrightarrow> set deps \<subseteq> set deps' \<Longrightarrow>
   vals (AList.update k deps' m) = vals m \<union> set deps'"
  by (induction m) (auto simp: vals_def split: if_splits)

lemma sum_update:
  "map_of m k = Some deps \<Longrightarrow>
     sum_list (map (\<lambda>e. f (snd e)) (AList.update k deps' m)) + f deps =
     sum_list (map (\<lambda>e. f (snd e)) m) + (f deps' :: nat)"
  by (induction m) (auto split: if_splits)

lemma defect_expand:
  assumes "map_of m k = Some deps"
  shows "defect (vals m) (expand m deps) \<le> defect (vals m) deps"
    and "sort deps \<noteq> expand m deps \<Longrightarrow> defect (vals m) (expand m deps) < defect (vals m) deps"
proof -
  let ?w = "expand m deps" and ?V = "vals m"
  have sub: "set deps \<subseteq> set ?w" by (auto simp: expand_set)
  have wV: "set ?w \<subseteq> ?V" using assms by (rule expand_vals)
  have norm: "sorted ?w" "distinct ?w" by (rule expand_sorted, rule expand_distinct)
  have le: "card (?V - set ?w) \<le> card (?V - set deps)"
    using sub by (intro card_mono) auto
  show "defect ?V ?w \<le> defect ?V deps"
    using le norm by (simp add: defect_def)
  assume ne: "sort deps \<noteq> ?w"
  show "defect ?V ?w < defect ?V deps"
  proof (cases "set ?w = set deps")
    case True
    have "\<not> distinct deps"
    proof
      assume "distinct deps"
      then have "sort deps = ?w"
        using norm True by (intro sorted_distinct_set_unique) auto
      with ne show False by simp
    qed
    then show ?thesis using True norm by (simp add: defect_def)
  next
    case False
    then obtain x where x: "x \<in> set ?w" "x \<notin> set deps" using sub by auto
    have "?V - set ?w \<subset> ?V - set deps"
      using sub x wV by auto
    then have "card (?V - set ?w) < card (?V - set deps)"
      by (intro psubset_card_mono) auto
    then show ?thesis using norm by (simp add: defect_def)
  qed
qed

lemma closure_key_defect:
  assumes "closure_key (m, modified) k = (m', modified')"
  shows "vals m' = vals m"
    and "total_defect m' \<le> total_defect m"
    and "modified' \<Longrightarrow> \<not> modified \<Longrightarrow> total_defect m' < total_defect m"
    and "modified \<Longrightarrow> modified'"
proof -
  show "modified \<Longrightarrow> modified'"
    using assms by (cases "map_of m k") (auto simp: closure_key_None closure_key_Some)
  show v: "vals m' = vals m"
  proof (cases "map_of m k")
    case None
    with assms show ?thesis by (simp add: closure_key_None)
  next
    case (Some deps)
    have "set deps \<subseteq> set (expand m deps)" by (auto simp: expand_set)
    with Some assms expand_vals [OF Some] show ?thesis
      by (auto simp: closure_key_Some vals_update)
  qed
  show "total_defect m' \<le> total_defect m"
  proof (cases "map_of m k")
    case None
    with assms show ?thesis by (simp add: closure_key_None)
  next
    case (Some deps)
    then have m': "m' = AList.update k (expand m deps) m"
      using assms by (simp add: closure_key_Some)
    show ?thesis
      using sum_update [OF Some, of "defect (vals m)" "expand m deps"] defect_expand(1) [OF Some]
      unfolding total_defect_def v unfolding m' by linarith
  qed
  show "total_defect m' < total_defect m" if "modified'" "\<not> modified"
  proof (cases "map_of m k")
    case None
    with assms that show ?thesis by (simp add: closure_key_None)
  next
    case (Some deps)
    then have m': "m' = AList.update k (expand m deps) m" and ne: "sort deps \<noteq> expand m deps"
      using assms that by (auto simp: closure_key_Some)
    show ?thesis
      using sum_update [OF Some, of "defect (vals m)" "expand m deps"] defect_expand(2) [OF Some ne]
      unfolding total_defect_def v unfolding m' by linarith
  qed
qed

lemma foldl_closure_key_defect:
  "foldl closure_key (m, modified) keys = (m', modified') \<Longrightarrow>
     total_defect m' \<le> total_defect m \<and> (modified \<longrightarrow> modified') \<and>
     (modified' \<longrightarrow> \<not> modified \<longrightarrow> total_defect m' < total_defect m)"
proof (induction keys arbitrary: m modified)
  case Nil
  then show ?case by simp
next
  case (Cons k keys)
  obtain m1 md1 where s: "closure_key (m, modified) k = (m1, md1)" by force
  from Cons.prems s have r: "foldl closure_key (m1, md1) keys = (m', modified')" by simp
  from Cons.IH [OF r] closure_key_defect [OF s] show ?case by (cases md1) auto
qed

lemma closure_pass_defect:
  "closure_pass keys m = (m', True) \<Longrightarrow> total_defect m' < total_defect m"
  using foldl_closure_key_defect [of m False keys m' True] by (simp add: closure_pass_def)

function closure_loop :: "string list \<Rightarrow> DataDependencyMap \<Rightarrow> DataDependencyMap" where
  "closure_loop keys m =
     (case closure_pass keys m of
        (m', modified) \<Rightarrow> if modified then closure_loop keys m' else m')"
  by pat_completeness auto
termination
  apply (relation "measure (\<lambda>(keys, m). total_defect m)")
   apply simp
  apply (auto dest!: closure_pass_defect [OF sym])
  done

declare closure_loop.simps [simp del]




text \<open>
  \<open>Object.keys\<close>: the keys that are array indices (canonical decimal numerals below
  \<open>2^32 - 1\<close>) in ascending numeric order, then the other keys in insertion order.
\<close>

definition is_digit :: "char \<Rightarrow> bool" where
  "is_digit c = (CHR ''0'' \<le> c \<and> c \<le> CHR ''9'')"

definition digits_value :: "string \<Rightarrow> int" where
  "digits_value s = foldl (\<lambda>a c. 10 * a + (of_char c - 48)) 0 s"

definition is_array_index :: "string \<Rightarrow> bool" where
  "is_array_index s =
     (s \<noteq> [] \<and> list_all is_digit s \<and> (s = ''0'' \<or> hd s \<noteq> CHR ''0'') \<and>
      digits_value s < 2 ^ 32 - 1)"

definition object_keys :: "(string \<times> 'v) list \<Rightarrow> string list" where
  "object_keys m =
     (let ks = map fst m
      in sort_key digits_value (filter is_array_index ks) @
         filter (\<lambda>k. \<not> is_array_index k) ks)"

definition extractDependencies :: "string list \<Rightarrow> Node \<Rightarrow> DataDependencyMap" where
  "extractDependencies babel n =
     (let m = direct_dependencies babel n;
          keys = object_keys m
      in closure_loop keys m)"

section \<open>Declaration Rewriter\<close>

text \<open>
  The callback that \<open>preprocess\<close> hands to \<open>visit\<close>. What it calls outside the two source
  files is a parameter: \<open>Array.prototype.sort\<close> under a comparator, \<open>C.capture\<close> and
  \<open>comparator\<close> (which takes the options and the Dependency Mapping), the table
  \<open>MemberLikeNodeTypesArray\<close> behind \<open>memberNodes\<close>, and Babel's table of kinds. \<open>'n\<close> is the
  type of nodes and \<open>'o\<close> the type of the options.
\<close>

record ('n, 'o) collaborators =
  array_sort :: "('n \<Rightarrow> 'n \<Rightarrow> Order) \<Rightarrow> 'n list \<Rightarrow> 'n list"
  capture :: "('n \<Rightarrow> bool) \<Rightarrow> ('n \<Rightarrow> 'n \<Rightarrow> Order) \<Rightarrow> 'n \<Rightarrow> 'n \<Rightarrow> Order"
  comparator :: "'o \<Rightarrow> DataDependencyMap \<Rightarrow> 'n \<Rightarrow> 'n \<Rightarrow> Order"
  MemberLikeNodeTypesArray :: "string list"
  VISITOR_KEYS :: "string list"






section \<open>The program on a store of arrays and objects\<close>

text \<open>
  The program changes arrays and objects in place: \<open>q.shift()\<close>, \<open>q.push(...)\<close>,
  \<open>deps.push(...)\<close>, \<open>map[...] = ...\<close>, \<open>seen[d] = true\<close> and \<open>sort()\<close>. To follow what these
  changes can reach, this section runs the same code on a store. Every array and every
  object that the program creates or changes is a cell of the store, named by its address;
  a node refers to its arrays of children by address. The program has no assignment to a
  property of a node, so nodes stay values. A read of a cell of the wrong kind or a loop
  that runs out of \<open>fuel\<close> gives \<open>None\<close>.
\<close>

type_synonym addr = nat

datatype RNode =
    RTSInterfaceBody properties addr
  | RClassBody properties addr
  | RTSTypeLiteral properties addr
  | RObjectExpression addr
  | RPropertyDefinition RNode bool "RNode option"
  | RProperty RNode bool RNode
  | RArrayExpression addr
  | RCallExpression RNode addr
  | RMemberExpression RNode RNode
  | RChainExpression RNode
  | RTSAsExpression RNode
  | RThisExpression
  | RIdentifier string
  | RPrivateIdentifier string
  | RLiteral literal_value
  | RPrivateName RNode
  | RStringLiteral string
  | ROtherNode string "RNode option" "bool option" addr

text \<open>
  The Name Resolver reads \<open>key\<close>, \<open>computed\<close> and the fields of the key, never an array: it
  is applied to the node without its arrays.
\<close>

fun unlinked :: "RNode \<Rightarrow> Node" where
  "unlinked (RTSInterfaceBody r a) = TSInterfaceBody r []"
| "unlinked (RClassBody r a) = ClassBody r []"
| "unlinked (RTSTypeLiteral r a) = TSTypeLiteral r []"
| "unlinked (RObjectExpression a) = ObjectExpression []"
| "unlinked (RPropertyDefinition k c v) =
     PropertyDefinition (unlinked k) c (case v of None \<Rightarrow> None | Some e \<Rightarrow> Some (unlinked e))"
| "unlinked (RProperty k c v) = Property (unlinked k) c (unlinked v)"
| "unlinked (RArrayExpression a) = ArrayExpression []"
| "unlinked (RCallExpression callee a) = CallExpression (unlinked callee) []"
| "unlinked (RMemberExpression obj prop) = MemberExpression (unlinked obj) (unlinked prop)"
| "unlinked (RChainExpression e) = ChainExpression (unlinked e)"
| "unlinked (RTSAsExpression e) = TSAsExpression (unlinked e)"
| "unlinked RThisExpression = ThisExpression"
| "unlinked (RIdentifier x) = Identifier x"
| "unlinked (RPrivateIdentifier x) = PrivateIdentifier x"
| "unlinked (RLiteral v) = Literal v"
| "unlinked (RPrivateName i) = PrivateName (unlinked i)"
| "unlinked (RStringLiteral x) = StringLiteral x"
| "unlinked (ROtherNode t k c a) =
     OtherNode t (case k of None \<Rightarrow> None | Some e \<Rightarrow> Some (unlinked e)) c []"

record QueueEntry =
  qparent :: "string option"
  qnode :: "RNode option"

datatype cell =
    NodeArray "RNode list"
  | ElementArray "RNode option list"
  | QueueArray "QueueEntry list"
  | NameArray "string list"
  | MapObject "(string \<times> addr) list"
  | SeenObject "string list"

type_synonym store = "cell list"

text \<open>A new array or object gets the next address.\<close>

definition allocate :: "cell \<Rightarrow> store \<Rightarrow> (addr \<times> store) option" where
  "allocate c s = Some (length s, s @ [c])"

definition cell_at :: "addr \<Rightarrow> store \<Rightarrow> cell option" where
  "cell_at a s = (if a < length s then Some (s ! a) else None)"

definition store_cell :: "addr \<Rightarrow> cell \<Rightarrow> store \<Rightarrow> store option" where
  "store_cell a c s = (if a < length s then Some (s[a := c]) else None)"

definition nodes_at :: "addr \<Rightarrow> store \<Rightarrow> RNode list option" where
  "nodes_at a s = (case cell_at a s of Some (NodeArray xs) \<Rightarrow> Some xs | _ \<Rightarrow> None)"

definition elements_at :: "addr \<Rightarrow> store \<Rightarrow> RNode option list option" where
  "elements_at a s = (case cell_at a s of Some (ElementArray xs) \<Rightarrow> Some xs | _ \<Rightarrow> None)"

definition queue_at :: "addr \<Rightarrow> store \<Rightarrow> QueueEntry list option" where
  "queue_at a s = (case cell_at a s of Some (QueueArray xs) \<Rightarrow> Some xs | _ \<Rightarrow> None)"

definition names_at :: "addr \<Rightarrow> store \<Rightarrow> string list option" where
  "names_at a s = (case cell_at a s of Some (NameArray xs) \<Rightarrow> Some xs | _ \<Rightarrow> None)"

definition map_at :: "addr \<Rightarrow> store \<Rightarrow> (string \<times> addr) list option" where
  "map_at a s = (case cell_at a s of Some (MapObject d) \<Rightarrow> Some d | _ \<Rightarrow> None)"

definition seen_at :: "addr \<Rightarrow> store \<Rightarrow> string list option" where
  "seen_at a s = (case cell_at a s of Some (SeenObject xs) \<Rightarrow> Some xs | _ \<Rightarrow> None)"

text \<open>\<open>q.push(e1, ..., en)\<close>; \<open>const el = xs.map(queueEntryMapper(cur)); q.push(...el)\<close>, where
  \<open>map\<close> makes the new array \<open>el\<close>; \<open>deps.push(dep_name)\<close>.\<close>

definition push_entries :: "addr \<Rightarrow> QueueEntry list \<Rightarrow> store \<Rightarrow> store option" where
  "push_entries q es s = do { xs \<leftarrow> queue_at q s; store_cell q (QueueArray (xs @ es)) s }"

definition push_mapped :: "addr \<Rightarrow> QueueEntry list \<Rightarrow> store \<Rightarrow> store option" where
  "push_mapped q es s =
     do { (el, s1) \<leftarrow> allocate (QueueArray es) s;
          xs \<leftarrow> queue_at el s1;
          push_entries q xs s1 }"

definition push_name :: "addr \<Rightarrow> string \<Rightarrow> store \<Rightarrow> store option" where
  "push_name deps dep_name s = do { xs \<leftarrow> names_at deps s; store_cell deps (NameArray (xs @ [dep_name])) s }"

definition record_dependency :: "addr \<Rightarrow> string \<Rightarrow> string \<Rightarrow> store \<Rightarrow> store option" where
  "record_dependency mp p dep_name s =
     do {
       d \<leftarrow> map_at mp s;
       case map_of d p of
         Some deps \<Rightarrow> push_name deps dep_name s
       | None \<Rightarrow>
           do { (deps, s1) \<leftarrow> allocate (NameArray []) s;
                s2 \<leftarrow> store_cell mp (MapObject (d @ [(p, deps)])) s1;
                push_name deps dep_name s2 }
     }"

definition entryR :: "string list \<Rightarrow> string option \<Rightarrow> RNode \<Rightarrow> RNode option \<Rightarrow> QueueEntry" where
  "entryR babel p c n = \<lparr>qparent = inherited_parent babel p (unlinked c), qnode = n\<rparr>"

fun visitR ::
  "string list \<Rightarrow> addr \<Rightarrow> addr \<Rightarrow> string option \<Rightarrow> RNode \<Rightarrow> store \<Rightarrow> store option" where
  "visitR babel q mp p (RTSInterfaceBody r body) s =
     do { ns \<leftarrow> nodes_at body s;
          push_mapped q (map (\<lambda>n. entryR babel p (RTSInterfaceBody r body) (Some n)) ns) s }"
| "visitR babel q mp p (RClassBody r body) s =
     do { ns \<leftarrow> nodes_at body s;
          push_mapped q (map (\<lambda>n. entryR babel p (RClassBody r body) (Some n)) ns) s }"
| "visitR babel q mp p (RTSTypeLiteral r members) s =
     do { ns \<leftarrow> nodes_at members s;
          push_mapped q (map (\<lambda>n. entryR babel p (RTSTypeLiteral r members) (Some n)) ns) s }"
| "visitR babel q mp p (RObjectExpression props) s =
     do { ns \<leftarrow> nodes_at props s;
          push_mapped q (map (\<lambda>n. entryR babel p (RObjectExpression props) (Some n)) ns) s }"
| "visitR babel q mp p (RPropertyDefinition k c None) s = Some s"
| "visitR babel q mp p (RPropertyDefinition k c (Some v)) s =
     push_entries q [entryR babel p (RPropertyDefinition k c (Some v)) (Some v)] s"
| "visitR babel q mp p (RProperty k c v) s =
     push_entries q [entryR babel p (RProperty k c v) (Some v)] s"
| "visitR babel q mp p (RArrayExpression elements) s =
     do { ns \<leftarrow> elements_at elements s;
          push_mapped q (map (entryR babel p (RArrayExpression elements)) ns) s }"
| "visitR babel q mp p (RCallExpression callee arguments) s =
     do { s1 \<leftarrow> (case callee of
                   RMemberExpression obj prop \<Rightarrow>
                     push_entries q [entryR babel p (RCallExpression callee arguments) (Some obj)] s
                 | _ \<Rightarrow> Some s);
          ns \<leftarrow> nodes_at arguments s1;
          push_mapped q (map (\<lambda>n. entryR babel p (RCallExpression callee arguments) (Some n)) ns) s1 }"
| "visitR babel q mp p (RMemberExpression obj (RIdentifier dep_name)) s =
     (case obj of
        RThisExpression \<Rightarrow>
          (case p of
             None \<Rightarrow> Some s
           | Some pn \<Rightarrow>
               if pn \<noteq> [] then record_dependency mp pn (strip_optional dep_name) s else Some s)
      | RMemberExpression obj' prop' \<Rightarrow>
          push_entries q
            [\<lparr>qparent = inherited_parent babel p
                          (unlinked (RMemberExpression obj (RIdentifier dep_name))),
              qnode = Some obj\<rparr>] s
      | _ \<Rightarrow> Some s)"
| "visitR babel q mp p (RMemberExpression obj prop) s = Some s"
| "visitR babel q mp p (RChainExpression e) s =
     push_entries q [entryR babel p (RChainExpression e) (Some e)] s"
| "visitR babel q mp p (RTSAsExpression e) s =
     push_entries q [entryR babel p (RTSAsExpression e) (Some e)] s"
| "visitR babel q mp p n s = Some s"

fun traverse :: "nat \<Rightarrow> string list \<Rightarrow> addr \<Rightarrow> addr \<Rightarrow> store \<Rightarrow> store option" where
  "traverse 0 babel q mp s = None"
| "traverse (Suc fuel) babel q mp s =
     do {
       es \<leftarrow> queue_at q s;
       case es of
         [] \<Rightarrow> Some s
       | cur # rest \<Rightarrow>
           do {
             s1 \<leftarrow> store_cell q (QueueArray rest) s;
             s2 \<leftarrow> (case qnode cur of
                       None \<Rightarrow> Some s1
                     | Some n \<Rightarrow> visitR babel q mp (qparent cur) n s1);
             traverse fuel babel q mp s2
           }
     }"

text \<open>
  \<open>for (const d of map[k]) { ... with_transitives = with_transitives.concat(d_deps) }\<close>:
  every \<open>concat\<close> makes a new array.
\<close>

fun concat_all :: "addr \<Rightarrow> string list \<Rightarrow> addr \<Rightarrow> store \<Rightarrow> (addr \<times> store) option" where
  "concat_all mp [] with_transitives s = Some (with_transitives, s)"
| "concat_all mp (d # ds) with_transitives s =
     do {
       m \<leftarrow> map_at mp s;
       case map_of m d of
         None \<Rightarrow> concat_all mp ds with_transitives s
       | Some d_deps \<Rightarrow>
           do {
             xs \<leftarrow> names_at with_transitives s;
             ys \<leftarrow> names_at d_deps s;
             (with_transitives', s1) \<leftarrow> allocate (NameArray (xs @ ys)) s;
             concat_all mp ds with_transitives' s1
           }
     }"

text \<open>The callback of \<open>filter\<close>, which writes to the object \<open>seen\<close>, over the elements in turn.\<close>

fun filter_seen :: "addr \<Rightarrow> string list \<Rightarrow> store \<Rightarrow> (string list \<times> store) option" where
  "filter_seen seen [] s = Some ([], s)"
| "filter_seen seen (d # ds) s =
     do {
       names \<leftarrow> seen_at seen s;
       if d \<in> set names then filter_seen seen ds s
       else do {
         s1 \<leftarrow> store_cell seen (SeenObject (d # names)) s;
         (kept, s2) \<leftarrow> filter_seen seen ds s1;
         Some (d # kept, s2)
       }
     }"

definition sort_in_place :: "addr \<Rightarrow> store \<Rightarrow> store option" where
  "sort_in_place a s = do { xs \<leftarrow> names_at a s; store_cell a (NameArray (sort xs)) s }"

text \<open>
  The body of \<open>for (const k of keys)\<close>: \<open>[...map[k]]\<close> is a new array, \<open>filter\<close> makes a new
  array that \<open>sort()\<close> then sorts in place, and \<open>map[k].sort()\<close> sorts the array of \<open>k\<close> in
  place.
\<close>

definition closure_keyR :: "addr \<Rightarrow> string \<Rightarrow> bool \<times> store \<Rightarrow> (bool \<times> store) option" where
  "closure_keyR mp k st =
     (case st of (modified, s) \<Rightarrow>
        do {
          m \<leftarrow> map_at mp s;
          a \<leftarrow> map_of m k;
          deps \<leftarrow> names_at a s;
          (copy, s1) \<leftarrow> allocate (NameArray deps) s;
          (with_transitives, s2) \<leftarrow> concat_all mp deps copy s1;
          ws \<leftarrow> names_at with_transitives s2;
          (seen, s3) \<leftarrow> allocate (SeenObject []) s2;
          (kept, s4) \<leftarrow> filter_seen seen ws s3;
          (filtered, s5) \<leftarrow> allocate (NameArray kept) s4;
          s6 \<leftarrow> sort_in_place filtered s5;
          s7 \<leftarrow> sort_in_place a s6;
          original \<leftarrow> names_at a s7;
          result \<leftarrow> names_at filtered s7;
          if has_change original result
          then do { m' \<leftarrow> map_at mp s7;
                    s8 \<leftarrow> store_cell mp (MapObject (AList.update k filtered m')) s7;
                    Some (True, s8) }
          else Some (modified, s7)
        })"

fun closure_passR :: "addr \<Rightarrow> string list \<Rightarrow> bool \<times> store \<Rightarrow> (bool \<times> store) option" where
  "closure_passR mp [] st = Some st"
| "closure_passR mp (k # keys) st = do { st' \<leftarrow> closure_keyR mp k st; closure_passR mp keys st' }"

fun closure_loopR :: "nat \<Rightarrow> addr \<Rightarrow> string list \<Rightarrow> store \<Rightarrow> store option" where
  "closure_loopR 0 mp keys s = None"
| "closure_loopR (Suc fuel) mp keys s =
     do {
       (modified, s1) \<leftarrow> closure_passR mp keys (False, s);
       if modified then closure_loopR fuel mp keys s1 else Some s1
     }"

definition extractDependenciesR ::
  "nat \<Rightarrow> string list \<Rightarrow> RNode \<Rightarrow> store \<Rightarrow> (addr \<times> store) option" where
  "extractDependenciesR fuel babel n s =
     do {
       (mp, s1) \<leftarrow> allocate (MapObject []) s;
       (q, s2) \<leftarrow> allocate (QueueArray [\<lparr>qparent = None, qnode = Some n\<rparr>]) s1;
       s3 \<leftarrow> traverse fuel babel q mp s2;
       m \<leftarrow> map_at mp s3;
       s4 \<leftarrow> closure_loopR fuel mp (object_keys m) s3;
       Some (mp, s4)
     }"

text \<open>The Dependency Mapping that the object at \<open>mp\<close> holds.\<close>

definition mapping_at :: "addr \<Rightarrow> store \<Rightarrow> DataDependencyMap option" where
  "mapping_at mp s =
     do { m \<leftarrow> map_at mp s;
          those (map (\<lambda>(k, a). map_option (Pair k) (names_at a s)) m) }"

text \<open>
  The callback of \<open>preprocess\<close>: \<open>node.body.slice()\<close> is a new array, the argument of \<open>sort\<close>
  is evaluated next, and \<open>sort\<close> then sorts the new array in place.
\<close>

definition memberNodesR :: "(RNode, 'o) collaborators \<Rightarrow> RNode \<Rightarrow> bool" where
  "memberNodesR env n = (type_of (unlinked n) \<in> set (MemberLikeNodeTypesArray env))"

definition sorted_copyR ::
  "nat \<Rightarrow> (RNode, 'o) collaborators \<Rightarrow> 'o \<Rightarrow> RNode \<Rightarrow> addr \<Rightarrow> store \<Rightarrow> (addr \<times> store) option" where
  "sorted_copyR fuel env options n members s =
     do {
       xs \<leftarrow> nodes_at members s;
       (copy, s1) \<leftarrow> allocate (NodeArray xs) s;
       (mp, s2) \<leftarrow> extractDependenciesR fuel (VISITOR_KEYS env) n s1;
       deps \<leftarrow> mapping_at mp s2;
       ys \<leftarrow> nodes_at copy s2;
       s3 \<leftarrow> store_cell copy
              (NodeArray (array_sort env
                 (capture env (memberNodesR env) (comparator env options deps)) ys)) s2;
       Some (copy, s3)
     }"

fun rewriteR ::
  "nat \<Rightarrow> (RNode, 'o) collaborators \<Rightarrow> 'o \<Rightarrow> RNode \<Rightarrow> store \<Rightarrow> (RNode \<times> store) option" where
  "rewriteR fuel env options (RTSInterfaceBody r body) s =
     do { (copy, s') \<leftarrow> sorted_copyR fuel env options (RTSInterfaceBody r body) body s;
          Some (RTSInterfaceBody r copy, s') }"
| "rewriteR fuel env options (RClassBody r body) s =
     do { (copy, s') \<leftarrow> sorted_copyR fuel env options (RClassBody r body) body s;
          Some (RClassBody r copy, s') }"
| "rewriteR fuel env options (RTSTypeLiteral r members) s =
     do { (copy, s') \<leftarrow> sorted_copyR fuel env options (RTSTypeLiteral r members) members s;
          Some (RTSTypeLiteral r copy, s') }"
| "rewriteR fuel env options n s = Some (n, s)"

text \<open>The address of the member array of a declaration body.\<close>

fun member_array :: "RNode \<Rightarrow> addr option" where
  "member_array (RTSInterfaceBody r body) = Some body"
| "member_array (RClassBody r body) = Some body"
| "member_array (RTSTypeLiteral r members) = Some members"
| "member_array n = None"


section \<open>Analysis of the closure loop\<close>

text \<open>
  The mapping as a graph: an edge from every key to every name of its array. \<open>dep_sets\<close> is
  the mapping with its arrays read as sets.
\<close>

definition edges :: "DataDependencyMap \<Rightarrow> (string \<times> string) set" where
  "edges m = {(k, d). \<exists>deps. map_of m k = Some deps \<and> d \<in> set deps}"

definition dep_sets :: "DataDependencyMap \<Rightarrow> string \<Rightarrow> string set option" where
  "dep_sets m k = map_option set (map_of m k)"


lemma edges_dep_sets: "edges m = {(k, d). \<exists>D. dep_sets m k = Some D \<and> d \<in> D}"
  by (auto simp: edges_def dep_sets_def)

























definition reach :: "DataDependencyMap \<Rightarrow> string \<Rightarrow> string set" where
  "reach m0 k = (edges m0)\<^sup>+ `` {k}"



lemma edges_vals: "edges m \<subseteq> UNIV \<times> vals m"
  by (auto simp: edges_def dest: map_of_vals)

lemma reach_vals: "reach m0 k \<subseteq> vals m0"
proof
  fix x assume "x \<in> reach m0 k"
  then have "(k, x) \<in> (edges m0)\<^sup>+" unfolding reach_def by simp
  then obtain z where "(z, x) \<in> edges m0" by (blast dest: tranclD2)
  with edges_vals [of m0] show "x \<in> vals m0" by auto
qed

lemma finite_reach [simp]: "finite (reach m0 k)"
  using reach_vals finite_vals by (rule finite_subset)




















section \<open>Analysis of the program on the store\<close>

text \<open>
  What the program keeps while it runs, relative to the size \<open>L\<close> of the store at the call:
  the queue, the mapping object and every array that the mapping refers to were created
  after the call (\<open>locals_fresh\<close>), and the cells below \<open>L\<close> are as they were (\<open>kept\<close>).
\<close>

definition map_local :: "nat \<Rightarrow> addr \<Rightarrow> store \<Rightarrow> bool" where
  "map_local L mp s = (\<forall>m. map_at mp s = Some m \<longrightarrow> (\<forall>a\<in>snd ` set m. L \<le> a))"

definition locals_fresh :: "nat \<Rightarrow> addr \<Rightarrow> addr \<Rightarrow> store \<Rightarrow> bool" where
  "locals_fresh L q mp s = (L \<le> length s \<and> L \<le> q \<and> L \<le> mp \<and> mp < length s \<and> map_local L mp s)"

definition kept :: "nat \<Rightarrow> addr \<Rightarrow> addr \<Rightarrow> store \<Rightarrow> store \<Rightarrow> bool" where
  "kept L q mp s s' = (locals_fresh L q mp s' \<and> take L s' = take L s)"

lemma kept_refl: "locals_fresh L q mp s \<Longrightarrow> kept L q mp s s"
  by (simp add: kept_def)

lemma kept_trans: "kept L q mp s s1 \<Longrightarrow> kept L q mp s1 s2 \<Longrightarrow> kept L q mp s s2"
  by (simp add: kept_def)

lemma keptD: "kept L q mp s s' \<Longrightarrow> locals_fresh L q mp s'"
  by (simp add: kept_def)

lemma kept_allocate:
  assumes "locals_fresh L q mp s" "allocate c s = Some (a, s')"
  shows "kept L q mp s s'" and "L \<le> a"
proof -
  from assms have s': "s' = s @ [c]" and a: "a = length s" by (auto simp: allocate_def)
  from assms(1) have L: "L \<le> length s" "mp < length s" by (auto simp: locals_fresh_def)
  then have "map_at mp s' = map_at mp s"
    by (simp add: s' map_at_def cell_at_def nth_append)
  with assms(1) L show "kept L q mp s s'"
    by (auto simp: kept_def locals_fresh_def map_local_def s')
  from L a show "L \<le> a" by simp
qed

lemma kept_store_cell:
  assumes "locals_fresh L q mp s" "store_cell a c s = Some s'" "L \<le> a"
    and "\<And>m. c = MapObject m \<Longrightarrow> \<forall>x\<in>snd ` set m. L \<le> x"
  shows "kept L q mp s s'"
proof -
  from assms(2) have s': "s' = s[a := c]" and a: "a < length s"
    by (auto simp: store_cell_def split: if_splits)
  have "map_local L mp s'"
  proof (cases "a = mp")
    case True
    with a assms(4) show ?thesis
      by (auto simp: map_local_def map_at_def cell_at_def s' split: cell.splits)
  next
    case False
    then have "map_at mp s' = map_at mp s" by (simp add: map_at_def cell_at_def s')
    with assms(1) show ?thesis by (simp add: map_local_def locals_fresh_def)
  qed
  with assms(1,3) show ?thesis
    by (simp add: kept_def locals_fresh_def s')
qed

lemma kept_push_entries:
  assumes "locals_fresh L q mp s" "push_entries q es s = Some s'"
  shows "kept L q mp s s'"
proof -
  from assms(2) obtain xs where "store_cell q (QueueArray (xs @ es)) s = Some s'"
    by (auto simp: push_entries_def bind_eq_Some_conv)
  from kept_store_cell [OF assms(1) this] assms(1) show ?thesis by (simp add: locals_fresh_def)
qed

lemma kept_push_mapped:
  assumes "locals_fresh L q mp s" "push_mapped q es s = Some s'"
  shows "kept L q mp s s'"
proof -
  from assms(2) obtain el s1 xs where al: "allocate (QueueArray es) s = Some (el, s1)"
    and p: "push_entries q xs s1 = Some s'"
    by (auto simp: push_mapped_def bind_eq_Some_conv)
  from kept_allocate(1) [OF assms(1) al] have k1: "kept L q mp s s1" .
  from kept_push_entries [OF keptD [OF k1] p] k1 show ?thesis by (rule kept_trans [rotated])
qed

lemma kept_push_name:
  assumes "locals_fresh L q mp s" "push_name a x s = Some s'" "L \<le> a"
  shows "kept L q mp s s'"
proof -
  from assms(2) obtain xs where "store_cell a (NameArray (xs @ [x])) s = Some s'"
    by (auto simp: push_name_def bind_eq_Some_conv)
  from kept_store_cell [OF assms(1) this assms(3)] show ?thesis by simp
qed

lemma map_local_lookup:
  "locals_fresh L q mp s \<Longrightarrow> map_at mp s = Some m \<Longrightarrow> map_of m k = Some a \<Longrightarrow> L \<le> a"
  unfolding locals_fresh_def map_local_def
  by (metis map_of_SomeD snd_conv image_eqI)

lemma kept_record_dependency:
  assumes "locals_fresh L q mp s" "record_dependency mp p x s = Some s'"
  shows "kept L q mp s s'"
proof -
  from assms(2) obtain m where m: "map_at mp s = Some m"
    by (auto simp: record_dependency_def bind_eq_Some_conv)
  show ?thesis
  proof (cases "map_of m p")
    case (Some deps)
    with assms(2) m have "push_name deps x s = Some s'"
      by (simp add: record_dependency_def)
    from kept_push_name [OF assms(1) this map_local_lookup [OF assms(1) m Some]] show ?thesis .
  next
    case None
    with assms(2) m obtain deps s1 s2
      where al: "allocate (NameArray []) s = Some (deps, s1)"
        and w: "store_cell mp (MapObject (m @ [(p, deps)])) s1 = Some s2"
        and pn: "push_name deps x s2 = Some s'"
      by (auto simp: record_dependency_def bind_eq_Some_conv)
    note k1 = kept_allocate [OF assms(1) al]
    have "\<forall>a\<in>snd ` set (m @ [(p, deps)]). L \<le> a"
      using assms(1) m k1(2) by (auto simp: locals_fresh_def map_local_def)
    with kept_store_cell [OF keptD [OF k1(1)] w] assms(1)
    have k2: "kept L q mp s1 s2" by (simp add: locals_fresh_def)
    from kept_push_name [OF keptD [OF k2] pn k1(2)] have k3: "kept L q mp s2 s'" .
    from k1(1) k2 k3 show ?thesis by (blast intro: kept_trans)
  qed
qed

lemma kept_visitR:
  assumes "locals_fresh L q mp s" "visitR babel q mp p n s = Some s'"
  shows "kept L q mp s s'"
  using assms
proof (induction babel q mp p n s rule: visitR.induct)
  case (9 babel q mp p callee arguments s)
  from "9.prems"(2) obtain s1 ns
    where a: "(case callee of
                 RMemberExpression obj prop \<Rightarrow>
                   push_entries q [entryR babel p (RCallExpression callee arguments) (Some obj)] s
               | _ \<Rightarrow> Some s) = Some s1"
      and b: "push_mapped q (map (\<lambda>n. entryR babel p (RCallExpression callee arguments) (Some n)) ns) s1 = Some s'"
    by (auto simp: bind_eq_Some_conv)
  from a "9.prems"(1) have k1: "kept L q mp s s1"
    by (cases callee) (auto intro: kept_refl kept_push_entries)
  from kept_push_mapped [OF keptD [OF k1] b] k1 show ?case by (blast intro: kept_trans)
next
  case (10 babel q mp p obj dep_name s)
  then show ?case
    by (cases obj)
       (auto intro: kept_refl kept_push_entries kept_record_dependency split: option.splits if_splits)
qed (auto simp: bind_eq_Some_conv intro: kept_refl kept_push_entries kept_push_mapped)

lemma kept_traverse:
  assumes "locals_fresh L q mp s" "traverse fuel babel q mp s = Some s'"
  shows "kept L q mp s s'"
  using assms
proof (induction fuel arbitrary: s)
  case 0
  then show ?case by simp
next
  case (Suc fuel)
  from Suc.prems(2) obtain es where es: "queue_at q s = Some es"
    by (auto simp: bind_eq_Some_conv)
  show ?case
  proof (cases es)
    case Nil
    with Suc.prems es show ?thesis by (simp add: kept_refl)
  next
    case (Cons cur rest)
    with Suc.prems(2) es obtain s1 s2
      where w: "store_cell q (QueueArray rest) s = Some s1"
        and v: "(case qnode cur of None \<Rightarrow> Some s1
                 | Some n \<Rightarrow> visitR babel q mp (qparent cur) n s1) = Some s2"
        and t: "traverse fuel babel q mp s2 = Some s'"
      by (auto simp: bind_eq_Some_conv)
    from kept_store_cell [OF Suc.prems(1) w] Suc.prems(1)
    have k1: "kept L q mp s s1" by (simp add: locals_fresh_def)
    from v keptD [OF k1] have k2: "kept L q mp s1 s2"
      by (cases "qnode cur") (auto intro: kept_refl kept_visitR)
    from Suc.IH [OF keptD [OF k2] t] k1 k2 show ?thesis by (blast intro: kept_trans)
  qed
qed

lemma kept_concat_all:
  assumes "locals_fresh L q mp s" "concat_all mp ds wt s = Some (wt', s')" "L \<le> wt"
  shows "kept L q mp s s' \<and> L \<le> wt'"
  using assms
proof (induction ds arbitrary: wt s)
  case Nil
  then show ?case by (simp add: kept_refl)
next
  case (Cons d ds)
  from Cons.prems(2) obtain m where m: "map_at mp s = Some m"
    by (auto simp: bind_eq_Some_conv)
  show ?case
  proof (cases "map_of m d")
    case None
    with Cons.prems(2) m have "concat_all mp ds wt s = Some (wt', s')" by simp
    from Cons.IH [OF Cons.prems(1) this Cons.prems(3)] show ?thesis .
  next
    case (Some d_deps)
    with Cons.prems(2) m obtain xs ys wt1 s1
      where al: "allocate (NameArray (xs @ ys)) s = Some (wt1, s1)"
        and r: "concat_all mp ds wt1 s1 = Some (wt', s')"
      by (auto simp: bind_eq_Some_conv)
    note k1 = kept_allocate [OF Cons.prems(1) al]
    from Cons.IH [OF keptD [OF k1(1)] r k1(2)] k1(1) show ?thesis
      by (blast intro: kept_trans)
  qed
qed

lemma kept_filter_seen:
  assumes "locals_fresh L q mp s" "filter_seen seen ds s = Some (names, s')" "L \<le> seen"
  shows "kept L q mp s s'"
  using assms
proof (induction ds arbitrary: s names)
  case Nil
  then show ?case by (simp add: kept_refl)
next
  case (Cons d ds)
  from Cons.prems(2) obtain old where old: "seen_at seen s = Some old"
    by (auto simp: bind_eq_Some_conv)
  show ?case
  proof (cases "d \<in> set old")
    case True
    with Cons.prems(2) old have "filter_seen seen ds s = Some (names, s')" by simp
    from Cons.IH [OF Cons.prems(1) this Cons.prems(3)] show ?thesis .
  next
    case False
    with Cons.prems(2) old obtain s1 rest
      where w: "store_cell seen (SeenObject (d # old)) s = Some s1"
        and r: "filter_seen seen ds s1 = Some (rest, s')"
      by (auto simp: bind_eq_Some_conv)
    from kept_store_cell [OF Cons.prems(1) w Cons.prems(3)] have k1: "kept L q mp s s1" by simp
    from Cons.IH [OF keptD [OF k1] r Cons.prems(3)] k1 show ?thesis
      by (blast intro: kept_trans)
  qed
qed

lemma kept_sort_in_place:
  assumes "locals_fresh L q mp s" "sort_in_place a s = Some s'" "L \<le> a"
  shows "kept L q mp s s'"
proof -
  from assms(2) obtain xs where "store_cell a (NameArray (sort xs)) s = Some s'"
    by (auto simp: sort_in_place_def bind_eq_Some_conv)
  from kept_store_cell [OF assms(1) this assms(3)] show ?thesis by simp
qed

lemma kept_closure_keyR:
  assumes f: "locals_fresh L q mp s" and c: "closure_keyR mp k (modified, s) = Some (modified', s')"
  shows "kept L q mp s s'"
proof -
  from c obtain m a deps copy s1 with_transitives s2 ws seen s3 names s4 filtered s5 s6 s7
    where m: "map_at mp s = Some m" and a: "map_of m k = Some a"
      and al1: "allocate (NameArray deps) s = Some (copy, s1)"
      and ca: "concat_all mp deps copy s1 = Some (with_transitives, s2)"
      and al2: "allocate (SeenObject []) s2 = Some (seen, s3)"
      and fs: "filter_seen seen ws s3 = Some (names, s4)"
      and al3: "allocate (NameArray names) s4 = Some (filtered, s5)"
      and so1: "sort_in_place filtered s5 = Some s6"
      and so2: "sort_in_place a s6 = Some s7"
      and fin: "(\<exists>m'. map_at mp s7 = Some m' \<and>
                   store_cell mp (MapObject (AList.update k filtered m')) s7 = Some s') \<or> s' = s7"
    unfolding closure_keyR_def
    by (auto simp: bind_eq_Some_conv split: if_splits)
  from map_local_lookup [OF f m a] have La: "L \<le> a" .
  note k1 = kept_allocate [OF f al1]
  from kept_concat_all [OF keptD [OF k1(1)] ca k1(2)]
  have k2: "kept L q mp s1 s2" by simp
  note k3 = kept_allocate [OF keptD [OF k2] al2]
  from kept_filter_seen [OF keptD [OF k3(1)] fs k3(2)] have k4: "kept L q mp s3 s4" .
  note k5 = kept_allocate [OF keptD [OF k4] al3]
  from kept_sort_in_place [OF keptD [OF k5(1)] so1 k5(2)] have k6: "kept L q mp s5 s6" .
  from kept_sort_in_place [OF keptD [OF k6] so2 La] have k7: "kept L q mp s6 s7" .
  from k1(1) k2 k3(1) k4 k5(1) k6 k7 have k: "kept L q mp s s7"
    by (blast intro: kept_trans)
  from fin show ?thesis
  proof
    assume "s' = s7"
    with k show ?thesis by simp
  next
    assume "\<exists>m'. map_at mp s7 = Some m' \<and>
              store_cell mp (MapObject (AList.update k filtered m')) s7 = Some s'"
    then obtain m' where m': "map_at mp s7 = Some m'"
      and w: "store_cell mp (MapObject (AList.update k filtered m')) s7 = Some s'"
      by blast
    have "\<forall>x\<in>snd ` set (AList.update k filtered m'). L \<le> x"
    proof
      fix x assume "x \<in> snd ` set (AList.update k filtered m')"
      then obtain y where "(y, x) \<in> set (AList.update k filtered m')" by auto
      then have "x = filtered \<or> (y, x) \<in> set m'"
        by (induction m') (auto split: if_splits)
      with k5(2) keptD [OF k] m' show "L \<le> x"
        by (auto simp: locals_fresh_def map_local_def)
    qed
    with kept_store_cell [OF keptD [OF k] w] f have "kept L q mp s7 s'"
      by (simp add: locals_fresh_def)
    with k show ?thesis by (rule kept_trans)
  qed
qed

lemma kept_closure_passR:
  assumes "locals_fresh L q mp s" "closure_passR mp keys (modified, s) = Some (modified', s')"
  shows "kept L q mp s s'"
  using assms
proof (induction keys arbitrary: modified s)
  case Nil
  then show ?case by (simp add: kept_refl)
next
  case (Cons k keys)
  from Cons.prems(2) obtain md1 s1
    where c: "closure_keyR mp k (modified, s) = Some (md1, s1)"
      and r: "closure_passR mp keys (md1, s1) = Some (modified', s')"
    by (auto simp: bind_eq_Some_conv)
  from kept_closure_keyR [OF Cons.prems(1) c] have k1: "kept L q mp s s1" .
  from Cons.IH [OF keptD [OF k1] r] k1 show ?case by (blast intro: kept_trans)
qed

lemma kept_closure_loopR:
  assumes "locals_fresh L q mp s" "closure_loopR fuel mp keys s = Some s'"
  shows "kept L q mp s s'"
  using assms
proof (induction fuel arbitrary: s)
  case 0
  then show ?case by simp
next
  case (Suc fuel)
  from Suc.prems(2) obtain md s1
    where p: "closure_passR mp keys (False, s) = Some (md, s1)"
      and r: "(if md then closure_loopR fuel mp keys s1 else Some s1) = Some s'"
    by (auto simp: bind_eq_Some_conv)
  from kept_closure_passR [OF Suc.prems(1) p] have k1: "kept L q mp s s1" .
  show ?case
  proof (cases md)
    case True
    with r have "closure_loopR fuel mp keys s1 = Some s'" by simp
    from Suc.IH [OF keptD [OF k1] this] k1 show ?thesis by (blast intro: kept_trans)
  next
    case False
    with r k1 show ?thesis by simp
  qed
qed

lemma extractDependenciesR_frame:
  assumes "extractDependenciesR fuel babel n s = Some (mp, s')"
  shows "length s \<le> length s' \<and> take (length s) s' = s \<and> length s \<le> mp"
proof -
  let ?L = "length s"
  from assms obtain mp0 s1 q s2 s3 m
    where al1: "allocate (MapObject []) s = Some (mp0, s1)"
      and al2: "allocate (QueueArray [\<lparr>qparent = None, qnode = Some n\<rparr>]) s1 = Some (q, s2)"
      and t: "traverse fuel babel q mp0 s2 = Some s3"
      and m: "map_at mp0 s3 = Some m"
      and c: "closure_loopR fuel mp0 (object_keys m) s3 = Some s'"
      and mp: "mp = mp0"
    by (auto simp: extractDependenciesR_def bind_eq_Some_conv)
  from al1 al2 have "locals_fresh ?L q mp0 s2" and eq: "take ?L s2 = s"
    by (auto simp: allocate_def locals_fresh_def map_local_def map_at_def cell_at_def nth_append)
  from kept_traverse [OF this(1) t] have k1: "kept ?L q mp0 s2 s3" .
  from kept_closure_loopR [OF keptD [OF k1] c] have k2: "kept ?L q mp0 s3 s'" .
  from k1 k2 eq mp show ?thesis
    by (auto simp: kept_def locals_fresh_def)
qed

lemma sorted_copyR_frame:
  assumes "sorted_copyR fuel env options n members s = Some (copy, s')"
  shows "length s \<le> length s' \<and> take (length s) s' = s \<and> length s \<le> copy"
proof -
  from assms obtain xs s1 mp s2 c
    where al: "allocate (NodeArray xs) s = Some (copy, s1)"
      and e: "extractDependenciesR fuel (VISITOR_KEYS env) n s1 = Some (mp, s2)"
      and w: "store_cell copy c s2 = Some s'"
    unfolding sorted_copyR_def
    by (auto simp: bind_eq_Some_conv)
  from al have s1: "s1 = s @ [NodeArray xs]" and copy: "copy = length s"
    by (auto simp: allocate_def)
  from extractDependenciesR_frame [OF e]
  have f: "length s1 \<le> length s2" "take (length s1) s2 = s1" by simp_all
  from w have s': "s' = s2[copy := c]" by (auto simp: store_cell_def split: if_splits)
  from f(2) have "take (length s) (take (length s1) s2) = take (length s) s1" by simp
  then have "take (length s) s2 = s" by (simp add: s1 min_def)
  with f(1) show ?thesis by (simp add: s' copy s1)
qed

lemma rewriteR_frame:
  assumes "rewriteR fuel env options n s = Some (n', s')"
  shows "length s \<le> length s' \<and> take (length s) s' = s"
  using assms
  by (cases n) (auto simp: bind_eq_Some_conv dest!: sorted_copyR_frame)

section \<open>Example declarations\<close>

text \<open>
  The kinds of the constructors of \<open>Node\<close> that are kinds of Babel as well; the examples
  resolve names against this table.
\<close>

definition babel_kinds :: "string list" where
  "babel_kinds =
     [''TSInterfaceBody'', ''ClassBody'', ''TSTypeLiteral'', ''ObjectExpression'',
      ''ArrayExpression'', ''CallExpression'', ''MemberExpression'', ''TSAsExpression'',
      ''ThisExpression'', ''Identifier'', ''PrivateName'', ''StringLiteral'']"

text \<open>A field \<open>k = v\<close>, the access \<open>this.x\<close>, and a method \<open>k() { return e }\<close>.\<close>

definition field :: "string \<Rightarrow> Node \<Rightarrow> Node" where
  "field k v = PropertyDefinition (Identifier k) False (Some v)"

definition this_dot :: "string \<Rightarrow> Node" where
  "this_dot x = MemberExpression ThisExpression (Identifier x)"

definition method_returning :: "string \<Rightarrow> Node \<Rightarrow> Node" where
  "method_returning k e =
     OtherNode ''MethodDefinition'' (Some (Identifier k)) (Some False)
       [OtherNode ''FunctionExpression'' None None
          [OtherNode ''BlockStatement'' None None
             [OtherNode ''ReturnStatement'' None None [e]]]]"

text \<open>\<open>class { c() { return this.a }  a = 1  b = this.c }\<close>\<close>

definition class_method_c :: Node where
  "class_method_c =
     ClassBody []
       [method_returning ''c'' (this_dot ''a''),
        field ''a'' (Literal (NumberValue 1)),
        field ''b'' (this_dot ''c'')]"

text \<open>\<open>class { c = this.a  a = 1  b = this.c }\<close>\<close>

definition class_field_c :: Node where
  "class_field_c =
     ClassBody []
       [field ''c'' (this_dot ''a''),
        field ''a'' (Literal (NumberValue 1)),
        field ''b'' (this_dot ''c'')]"

text \<open>\<open>class { a = this.x  b = this.y }\<close>\<close>

definition class_unrelated :: Node where
  "class_unrelated = ClassBody [] [field ''a'' (this_dot ''x''), field ''b'' (this_dot ''y'')]"




text \<open>
  A store with one cell, the member array of \<open>class { c = this.a  a = 1  b = this.c }\<close>; the
  class body refers to it by the address \<open>0\<close>.
\<close>

definition class_store :: store where
  "class_store =
     [NodeArray
        [RPropertyDefinition (RIdentifier ''c'') False
           (Some (RMemberExpression RThisExpression (RIdentifier ''a''))),
         RPropertyDefinition (RIdentifier ''a'') False (Some (RLiteral (NumberValue 1))),
         RPropertyDefinition (RIdentifier ''b'') False
           (Some (RMemberExpression RThisExpression (RIdentifier ''c'')))]]"

text \<open>
  \<open>class { a = f(this.b, [this.c, , this.d?.e])  b = this.c as T  c = this.a.b.c }\<close>, as a
  tree and as a class body at address \<open>0\<close> of a store that also holds the arguments of the
  call and the elements of the array literal.
\<close>

definition class_nested :: Node where
  "class_nested =
     ClassBody []
       [field ''a''
          (CallExpression (Identifier ''f'')
             [this_dot ''b'',
              ArrayExpression
                [Some (this_dot ''c''), None,
                 Some (ChainExpression (MemberExpression (this_dot ''d'') (Identifier ''e'')))]]),
        field ''b'' (TSAsExpression (this_dot ''c'')),
        field ''c''
          (MemberExpression (MemberExpression (this_dot ''a'') (Identifier ''b''))
             (Identifier ''c''))]"

definition nested_store :: store where
  "nested_store =
     [NodeArray
        [RPropertyDefinition (RIdentifier ''a'') False
           (Some (RCallExpression (RIdentifier ''f'') 1)),
         RPropertyDefinition (RIdentifier ''b'') False
           (Some (RTSAsExpression (RMemberExpression RThisExpression (RIdentifier ''c'')))),
         RPropertyDefinition (RIdentifier ''c'') False
           (Some (RMemberExpression
                    (RMemberExpression (RMemberExpression RThisExpression (RIdentifier ''a''))
                       (RIdentifier ''b''))
                    (RIdentifier ''c'')))],
      NodeArray [RMemberExpression RThisExpression (RIdentifier ''b''), RArrayExpression 2],
      ElementArray
        [Some (RMemberExpression RThisExpression (RIdentifier ''c'')), None,
         Some (RChainExpression
                 (RMemberExpression (RMemberExpression RThisExpression (RIdentifier ''d''))
                    (RIdentifier ''e'')))]]"

definition reversing_collaboratorsR :: "(RNode, unit) collaborators" where
  "reversing_collaboratorsR =
     \<lparr>array_sort = (\<lambda>c xs. rev xs), capture = (\<lambda>g c. c),
      comparator = (\<lambda>opts deps a b. Equal),
      MemberLikeNodeTypesArray = [''PropertyDefinition''],
      VISITOR_KEYS = babel_kinds\<rparr>"

section \<open>Properties of the Name Resolver\<close>

text \<open>
  C7. A member whose key is an identifier or a private identifier resolves to nothing when
  the key is computed and to the identifier's name otherwise; a member whose key is a
  literal resolves to the literal's value when it is a string and to nothing otherwise.
\<close>

theorem extractName_identifier_and_literal_keys:
  "(key_of n = Some (Identifier x) \<or> key_of n = Some (PrivateIdentifier x) \<longrightarrow>
      extractName babel n = (if computed_true n then None else Some x)) \<and>
   (key_of n = Some (Literal v) \<longrightarrow>
      extractName babel n = (case v of StringValue s \<Rightarrow> Some s | _ \<Rightarrow> None))"
  by (cases v) (auto simp: extractName_def)

theorem extractName_identifier_and_literal_keys_witness:
  "extractName babel_kinds (PropertyDefinition (Identifier ''a'') False None) = Some ''a'' \<and>
   extractName babel_kinds (PropertyDefinition (PrivateIdentifier ''a'') True None) = None \<and>
   extractName babel_kinds (Property (Literal (StringValue ''k'')) False ThisExpression) = Some ''k'' \<and>
   extractName babel_kinds (Property (Literal (NumberValue 1)) False ThisExpression) = None"
  using
    extractName_identifier_and_literal_keys
      [of "PropertyDefinition (Identifier ''a'') False None" "''a''" babel_kinds NullValue]
    extractName_identifier_and_literal_keys
      [of "PropertyDefinition (PrivateIdentifier ''a'') True None" "''a''" babel_kinds NullValue]
    extractName_identifier_and_literal_keys
      [of "Property (Literal (StringValue ''k'')) False ThisExpression" "''a''" babel_kinds
          "StringValue ''k''"]
    extractName_identifier_and_literal_keys
      [of "Property (Literal (NumberValue 1)) False ThisExpression" "''a''" babel_kinds
          "NumberValue 1"]
  by simp

section \<open>Properties of the Ordering Comparator\<close>

lemma indexOf_range: "- 1 \<le> indexOf xs y"
  by (induction xs) (auto simp: Let_def)

lemma indexOf_found: "indexOf xs y \<noteq> - 1 \<longleftrightarrow> (\<exists>x. y = Some x \<and> x \<in> set xs)"
proof (induction xs)
  case Nil
  then show ?case by simp
next
  case (Cons a xs)
  with indexOf_range [of xs y] show ?case by (auto simp: Let_def)
qed

lemma name_member_info_of [simp]: "name (member_info_of babel m n) = extractName babel n"
  by (simp add: member_info_of_def Let_def)

text \<open>
  C4. When the name of \<open>b\<close> occurs in the dependency set resolved for \<open>a\<close>, the comparator
  answers \<open>Greater\<close>, whatever the sizes of the two sets.
\<close>

theorem dataDependency_Greater_when_a_depends_on_b:
  assumes "extractName babel b = Some nb"
    and "nb \<in> set (dependencies (member_info_of babel m a))"
  shows "dataDependency babel m a b = Greater"
proof -
  let ?a = "member_info_of babel m a" and ?b = "member_info_of babel m b"
  from assms have found: "indexOf (dependencies ?a) (name ?b) \<noteq> - 1"
    by (simp add: indexOf_found)
  from assms(2) have "length (dependencies ?a) \<noteq> 0" by auto
  with found show ?thesis
    by (simp add: dataDependency_def by_selector_def compare_info_def)
qed

theorem dataDependency_Greater_when_a_depends_on_b_witness:
  "extractName babel_kinds (field ''b'' ThisExpression) = Some ''b'' \<and>
   ''b'' \<in> set (dependencies (member_info_of babel_kinds
              [(''a'', [''b'']), (''b'', [''x'', ''y'', ''z''])] (field ''a'' ThisExpression))) \<and>
   dataDependency babel_kinds [(''a'', [''b'']), (''b'', [''x'', ''y'', ''z''])]
     (field ''a'' ThisExpression) (field ''b'' ThisExpression) = Greater"
proof -
  have n: "extractName babel_kinds (field ''b'' ThisExpression) = Some ''b''"
    by (simp add: extractName_def field_def)
  have d: "''b'' \<in> set (dependencies (member_info_of babel_kinds
              [(''a'', [''b'']), (''b'', [''x'', ''y'', ''z''])] (field ''a'' ThisExpression)))"
    by (simp add: member_info_of_def extractName_def field_def)
  from n d dataDependency_Greater_when_a_depends_on_b [OF n d] show ?thesis by simp
qed

text \<open>
  Whenever one of the two sets is non-empty, the sizes are equal and neither set holds the
  name of the other member, the comparator answers \<open>Less\<close>.
\<close>

lemma dataDependency_equal_sizes_never_Equal:
  assumes "dependencies (member_info_of babel m a) \<noteq> []"
    and "length (dependencies (member_info_of babel m a)) =
         length (dependencies (member_info_of babel m b))"
    and "\<forall>x. extractName babel b = Some x \<longrightarrow> x \<notin> set (dependencies (member_info_of babel m a))"
    and "\<forall>x. extractName babel a = Some x \<longrightarrow> x \<notin> set (dependencies (member_info_of babel m b))"
  shows "dataDependency babel m a b = Less"
proof -
  from assms(3) have "indexOf (dependencies (member_info_of babel m a))
                        (name (member_info_of babel m b)) = - 1"
    using indexOf_found [of "dependencies (member_info_of babel m a)" "extractName babel b"]
    by auto
  moreover from assms(4) have "indexOf (dependencies (member_info_of babel m b))
                        (name (member_info_of babel m a)) = - 1"
    using indexOf_found [of "dependencies (member_info_of babel m b)" "extractName babel a"]
    by auto
  moreover from assms(1,2) have "dependencies (member_info_of babel m b) \<noteq> []"
    by (metis length_0_conv)
  ultimately show ?thesis
    using assms(1,2) by (simp add: dataDependency_def by_selector_def compare_info_def)
qed

text \<open>
  C1. In \<open>class { a = this.x  b = this.y }\<close> the dependency sets of \<open>a\<close> and \<open>b\<close> are \<open>{x}\<close> and
  \<open>{y}\<close>: both non-empty, of equal size, and neither holds the name of the other member.
  The comparator answers \<open>Less\<close> for the pair in either order: the test
  \<open>a.dependencies.length <= b.dependencies.length\<close> holds for equal sizes, so the final
  \<open>return Order.Equal\<close> is never reached.
\<close>

theorem dataDependency_equal_sizes_Less:
  "extractDependencies babel_kinds class_unrelated = [(''a'', [''x'']), (''b'', [''y''])] \<and>
   dataDependency babel_kinds (extractDependencies babel_kinds class_unrelated)
     (field ''a'' (this_dot ''x'')) (field ''b'' (this_dot ''y'')) = Less \<and>
   dataDependency babel_kinds (extractDependencies babel_kinds class_unrelated)
     (field ''b'' (this_dot ''y'')) (field ''a'' (this_dot ''x'')) = Less"
  by code_simp

section \<open>Properties of the Dependency Extractor\<close>

text \<open>
  C2 as stated fails: in \<open>class { c() { return this.a }  a = 1  b = this.c }\<close> the set of \<open>b\<close>
  is not \<open>{c, a}\<close>.
\<close>

theorem extractDependencies_method_example_counterexample:
  "\<not> (\<exists>deps. map_of (extractDependencies babel_kinds class_method_c) ''b'' = Some deps \<and>
         set deps = {''c'', ''a''})"
proof -
  have "extractDependencies babel_kinds class_method_c = [(''b'', [''c''])]"
    by code_simp
  then show ?thesis by auto
qed

text \<open>
  C2, amended. The traversal has no case for a method, so the body of \<open>c\<close> is not entered:
  the mapping of that class has the single entry \<open>b\<close>, with the set \<open>{c}\<close>. When \<open>c\<close> is a
  field, \<open>c = this.a\<close>, the closure gives \<open>b\<close> the set \<open>{a, c}\<close>.
\<close>

theorem extractDependencies_method_and_field_example:
  "extractDependencies babel_kinds class_method_c = [(''b'', [''c''])] \<and>
   extractDependencies babel_kinds class_field_c =
     [(''c'', [''a'']), (''b'', [''a'', ''c''])]"
  by code_simp











section \<open>Properties of the Declaration Rewriter\<close>



section \<open>Effects on the input\<close>

text \<open>
  On the nested example the run on the store ends with the mapping that the extractor
  computes on the tree, and with the three arrays of the input as they were.
\<close>

lemma store_run_agrees_on_nested_example:
  "(case extractDependenciesR 40 babel_kinds (RClassBody [] 0) nested_store of
      None \<Rightarrow> False
    | Some (mp, s') \<Rightarrow>
        mapping_at mp s' = Some (extractDependencies babel_kinds class_nested) \<and>
        take 3 s' = nested_store)"
  by code_simp

text \<open>
  C9. Neither the Dependency Extractor nor the callback of \<open>preprocess\<close> changes a cell
  that the store held before the call, so the arrays of the input node and of all its
  descendants are after the call what they were before. The callback returns the node
  itself, or a declaration body with the same fields that refers to a new member array,
  and the member array of the input is as it was.
\<close>

theorem input_not_mutated:
  "(extractDependenciesR fuel babel n s = Some (mp, s') \<longrightarrow> take (length s) s' = s) \<and>
   (rewriteR fuel env options n s = Some (n', s'') \<longrightarrow>
      take (length s) s'' = s \<and> unlinked n' = unlinked n \<and>
      (case member_array n of
         None \<Rightarrow> n' = n
       | Some members \<Rightarrow>
           (\<exists>copy. member_array n' = Some copy \<and> length s \<le> copy) \<and>
           cell_at members s'' = cell_at members s))"
proof (intro conjI impI)
  assume "extractDependenciesR fuel babel n s = Some (mp, s')"
  from extractDependenciesR_frame [OF this] show "take (length s) s' = s" by simp
next
  assume r: "rewriteR fuel env options n s = Some (n', s'')"
  from rewriteR_frame [OF r] show f: "take (length s) s'' = s" by simp
  from r show "unlinked n' = unlinked n"
    by (cases n) (auto simp: bind_eq_Some_conv)
  have old: "cell_at a s'' = cell_at a s" if "nodes_at a s = Some xs" for a xs
  proof -
    from that have lt: "a < length s"
      by (auto simp: nodes_at_def cell_at_def split: if_splits)
    with f have "s'' ! a = s ! a" by (metis nth_take)
    with lt rewriteR_frame [OF r] show ?thesis by (simp add: cell_at_def)
  qed
  have copied: "(\<exists>c. copy = c \<and> length s \<le> c) \<and> cell_at members s'' = cell_at members s"
    if "sorted_copyR fuel env options n members s = Some (copy, s'')" for members copy
  proof -
    from that obtain xs where "nodes_at members s = Some xs"
      unfolding sorted_copyR_def by (auto simp: bind_eq_Some_conv)
    with sorted_copyR_frame [OF that] old show ?thesis by simp
  qed
  from r copied
  show "case member_array n of
          None \<Rightarrow> n' = n
        | Some members \<Rightarrow>
            (\<exists>copy. member_array n' = Some copy \<and> length s \<le> copy) \<and>
            cell_at members s'' = cell_at members s"
    by (cases n) (auto simp: bind_eq_Some_conv)
qed

theorem input_not_mutated_witness:
  "\<exists>mp s' n' s''.
     extractDependenciesR 20 babel_kinds (RClassBody [] 0) class_store = Some (mp, s') \<and>
     mapping_at mp s' = Some (extractDependencies babel_kinds class_field_c) \<and>
     take (length class_store) s' = class_store \<and>
     rewriteR 20 reversing_collaboratorsR () (RClassBody [] 0) class_store = Some (n', s'') \<and>
     n' = RClassBody [] 1 \<and>
     take (length class_store) s'' = class_store \<and>
     cell_at 0 s'' = cell_at 0 class_store \<and>
     map_option rev (nodes_at 1 s'') = nodes_at 0 class_store"
proof -
  have "(case extractDependenciesR 20 babel_kinds (RClassBody [] 0) class_store of
           None \<Rightarrow> False
         | Some (mp, s') \<Rightarrow>
             mapping_at mp s' = Some (extractDependencies babel_kinds class_field_c))"
    by code_simp
  then obtain mp s'
    where e: "extractDependenciesR 20 babel_kinds (RClassBody [] 0) class_store = Some (mp, s')"
      and m: "mapping_at mp s' = Some (extractDependencies babel_kinds class_field_c)"
    by (auto split: option.splits)
  have "(case rewriteR 20 reversing_collaboratorsR () (RClassBody [] 0) class_store of
           None \<Rightarrow> False
         | Some (n', s'') \<Rightarrow>
             n' = RClassBody [] 1 \<and> map_option rev (nodes_at 1 s'') = nodes_at 0 class_store)"
    by code_simp
  then obtain n' s''
    where r: "rewriteR 20 reversing_collaboratorsR () (RClassBody [] 0) class_store = Some (n', s'')"
      and n': "n' = RClassBody [] 1"
      and c: "map_option rev (nodes_at 1 s'') = nodes_at 0 class_store"
    by (auto split: option.splits)
  from input_not_mutated
         [of 20 babel_kinds "RClassBody [] 0" class_store mp s' reversing_collaboratorsR "()"
             n' s'']
       e r
  have "take (length class_store) s' = class_store"
    and "take (length class_store) s'' = class_store"
    and "cell_at 0 s'' = cell_at 0 class_store"
    by simp_all
  with e m r n' c show ?thesis by blast
qed

end
